theory Spec2Isabelle
  imports Complex_Main
begin

section \<open>JavaScript helpers\<close>

text \<open>
  JavaScript numbers are modelled as follows: counters (\<open>failureCount\<close>, \<open>failureThreshold\<close>,
  \<open>maxRetries\<close>, pool counters) are \<open>int\<close>; times, delays and everything that is multiplied
  by \<open>Math.random()\<close> or by a non-integer multiplier is \<open>real\<close> (IEEE rounding and
  overflow of doubles are not modelled). Every reading of \<open>Date.now()\<close> and of
  \<open>Math.random()\<close> is a parameter of the function that reads it.
\<close>

text \<open>\<open>x || d\<close> on an optional number: \<open>undefined\<close> and \<open>0\<close> are falsy and give \<open>d\<close>.\<close>

definition js_or :: "'a::zero option \<Rightarrow> 'a \<Rightarrow> 'a" where
  "js_or x d = (case x of None \<Rightarrow> d | Some v \<Rightarrow> if v = 0 then d else v)"

text \<open>
  \<open>Math.pow(b, k)\<close> for an integer exponent \<open>k\<close>. (For \<open>b = 0\<close> and \<open>k < 0\<close> JavaScript gives
  \<open>Infinity\<close>; the source never calls it so: the base is \<open>2\<close> or the exponent is a loop
  index \<open>\<ge> 0\<close>.)
\<close>

definition Math_pow :: "real \<Rightarrow> int \<Rightarrow> real" where
  "Math_pow b k = (if 0 \<le> k then b ^ nat k else 1 / b ^ nat (- k))"

text \<open>The outcome of awaiting the caller's operation: it returns a value or throws.\<close>

datatype ('v, 'e) outcome = Success 'v | Failure 'e


section \<open>CircuitBreaker (layer-3-service-isolation/README.md)\<close>

datatype cb_state = CLOSED | OPEN | HALF_OPEN

record CircuitBreaker =
  failureThreshold :: int
  timeout :: real
  state :: cb_state
  failureCount :: int
  lastFailureTime :: "real option"
  nextAttempt :: real

text \<open>
  The constructor's \<open>options\<close>. The \<open>monitor\<close> callback is not modelled: the default one
  only writes to the console; it changes no field of the breaker and does not throw.
\<close>

record cb_options =
  opt_failureThreshold :: "int option"
  opt_timeout :: "real option"

definition new_CircuitBreaker :: "cb_options \<Rightarrow> real \<Rightarrow> CircuitBreaker" where
  "new_CircuitBreaker options now =
     \<lparr> failureThreshold = js_or (opt_failureThreshold options) 5,
       timeout = js_or (opt_timeout options) 60000,
       state = CLOSED,
       failureCount = 0,
       lastFailureTime = None,
       nextAttempt = now \<rparr>"

text \<open>\<open>getBackoffDelay\<close>; \<open>r\<close> is the value of \<open>Math.random()\<close>.\<close>

definition getBackoffDelay :: "CircuitBreaker \<Rightarrow> real \<Rightarrow> real" where
  "getBackoffDelay cb r =
     (let baseDelay = timeout cb;
          exponentialDelay =
            baseDelay * Math_pow 2 (min (failureCount cb - failureThreshold cb) 6);
          jitter = r * (1 / 10) * exponentialDelay
      in exponentialDelay + jitter)"

definition onSuccess :: "CircuitBreaker \<Rightarrow> CircuitBreaker" where
  "onSuccess cb = cb\<lparr>failureCount := 0, state := CLOSED\<rparr>"

text \<open>
  \<open>onFailure\<close>; \<open>t1\<close> and \<open>t2\<close> are the two readings of \<open>Date.now()\<close> (for
  \<open>lastFailureTime\<close> and for \<open>nextAttempt\<close>), \<open>r\<close> the value of \<open>Math.random()\<close> that
  \<open>getBackoffDelay\<close> draws when the breaker opens.
\<close>

definition onFailure :: "CircuitBreaker \<Rightarrow> real \<Rightarrow> real \<Rightarrow> real \<Rightarrow> CircuitBreaker" where
  "onFailure cb t1 t2 r =
     (let cb1 = cb\<lparr>failureCount := failureCount cb + 1, lastFailureTime := Some t1\<rparr>
      in if failureCount cb1 \<ge> failureThreshold cb1
         then (let cb2 = cb1\<lparr>state := OPEN\<rparr>
               in cb2\<lparr>nextAttempt := t2 + getBackoffDelay cb2 r\<rparr>)
         else cb1)"

datatype 'e cb_error = CircuitOpenError | OperationError 'e

text \<open>
  \<open>execute\<close> up to the point where it calls \<open>operation()\<close>: the gate. \<open>Inl\<close> is the throw
  of \<open>Error("Circuit breaker is OPEN")\<close>; \<open>Inr\<close> is the breaker with which the operation is
  invoked.
\<close>

definition execute_enter :: "CircuitBreaker \<Rightarrow> real \<Rightarrow> 'e cb_error + CircuitBreaker" where
  "execute_enter cb now =
     (if state cb = OPEN
      then (if now < nextAttempt cb then Inl CircuitOpenError
            else Inr (cb\<lparr>state := HALF_OPEN\<rparr>))
      else Inr cb)"

text \<open>The rest of \<open>execute\<close>, once the awaited operation has settled.\<close>

record ('v, 'e) settlement =
  result :: "('v, 'e) outcome"
  t_last :: real
  t_next :: real
  rnd :: real

definition execute_settle ::
  "CircuitBreaker \<Rightarrow> ('v, 'e) settlement \<Rightarrow> ('e cb_error + 'v) \<times> CircuitBreaker" where
  "execute_settle cb s =
     (case result s of
        Success v \<Rightarrow> (Inr v, onSuccess cb)
      | Failure e \<Rightarrow> (Inl (OperationError e), onFailure cb (t_last s) (t_next s) (rnd s)))"

text \<open>
  One whole call of \<open>execute\<close> with no other call in between: \<open>now\<close> is \<open>Date.now()\<close> at the
  gate, \<open>s\<close> what happens once the operation is invoked. The third component tells whether
  the operation was invoked.
\<close>

definition execute ::
  "CircuitBreaker \<Rightarrow> real \<Rightarrow> ('v, 'e) settlement \<Rightarrow> ('e cb_error + 'v) \<times> CircuitBreaker \<times> bool" where
  "execute cb now s =
     (case execute_enter cb now of
        Inl err \<Rightarrow> (Inl err, cb, False)
      | Inr cb' \<Rightarrow> (let (res, cb'') = execute_settle cb' s in (res, cb'', True)))"

text \<open>
  A sequence of \<open>execute\<close> calls, one after the other; the number counts the invocations of
  the operation.
\<close>

fun execute_all ::
  "CircuitBreaker \<times> nat \<Rightarrow> (real \<times> ('v, 'e) settlement) list \<Rightarrow> CircuitBreaker \<times> nat" where
  "execute_all (cb, n) [] = (cb, n)"
| "execute_all (cb, n) ((now, s) # cs) =
     (case execute cb now s of
        (res, cb', invoked) \<Rightarrow> execute_all (cb', if invoked then Suc n else n) cs)"

text \<open>
  Overlapping calls. \<open>execute\<close> is \<open>async\<close>: between the gate and the bookkeeping of one
  call, other calls may pass the gate and other operations may settle. An event is either
  a call arriving at the gate or the settling of an operation in flight.
\<close>

record cb_sys =
  breaker :: CircuitBreaker
  inflight :: nat
  invocations :: nat
  rejections :: nat

datatype cb_event = Call real | Succeed | Fail real real real

fun cb_step :: "cb_sys \<Rightarrow> cb_event \<Rightarrow> cb_sys option" where
  "cb_step s (Call now) =
     (case (execute_enter (breaker s) now :: unit cb_error + CircuitBreaker) of
        Inl err \<Rightarrow> Some (s\<lparr>rejections := Suc (rejections s)\<rparr>)
      | Inr cb' \<Rightarrow> Some (s\<lparr>breaker := cb', inflight := Suc (inflight s),
                            invocations := Suc (invocations s)\<rparr>))"
| "cb_step s Succeed =
     (if inflight s = 0 then None
      else Some (s\<lparr>breaker := onSuccess (breaker s), inflight := inflight s - 1\<rparr>))"
| "cb_step s (Fail t1 t2 r) =
     (if inflight s = 0 then None
      else Some (s\<lparr>breaker := onFailure (breaker s) t1 t2 r, inflight := inflight s - 1\<rparr>))"

fun cb_run :: "cb_sys \<Rightarrow> cb_event list \<Rightarrow> cb_sys option" where
  "cb_run s [] = Some s"
| "cb_run s (e # es) = (case cb_step s e of None \<Rightarrow> None | Some s' \<Rightarrow> cb_run s' es)"

definition cb_init :: "CircuitBreaker \<Rightarrow> cb_sys" where
  "cb_init cb = \<lparr> breaker = cb, inflight = 0, invocations = 0, rejections = 0 \<rparr>"

text \<open>The breaker invariant of the specification.\<close>

definition cb_inv :: "CircuitBreaker \<Rightarrow> bool" where
  "cb_inv cb \<longleftrightarrow> (state cb = CLOSED \<longrightarrow> failureCount cb < failureThreshold cb)"



section \<open>ResilientServiceClient.retryWithBackoff (layer-3-service-isolation/README.md)\<close>

record retryOptions =
  maxRetries :: int
  backoffMultiplier :: real
  initialDelay :: real

record client_options =
  opt_maxRetries :: "int option"
  opt_backoffMultiplier :: "real option"
  opt_initialDelay :: "real option"

text \<open>The \<open>retryOptions\<close> that the constructor of \<open>ResilientServiceClient\<close> builds.\<close>

definition new_retryOptions :: "client_options \<Rightarrow> retryOptions" where
  "new_retryOptions options =
     \<lparr> maxRetries = js_or (opt_maxRetries options) 3,
       backoffMultiplier = js_or (opt_backoffMultiplier options) 2,
       initialDelay = js_or (opt_initialDelay options) 100 \<rparr>"

text \<open>
  What a run of \<open>retryWithBackoff\<close> does, in order: invocations of the operation and calls of
  \<open>sleep\<close>.
\<close>

datatype retry_event = Attempt nat | Sleep real

text \<open>
  How a run can fail. \<open>Thrown\<close> is \<open>throw lastError\<close>, where \<open>lastError\<close> is \<open>undefined\<close>
  (\<open>None\<close>) if the loop body never ran. \<open>CancelledError\<close> is the error kind of the
  specification; no statement of \<open>retryWithBackoff\<close> throws it.
\<close>

datatype 'e retry_error = CancelledError | Thrown "'e option"

text \<open>
  The \<open>for\<close> loop of \<open>retryWithBackoff\<close> from \<open>attempt\<close> on. \<open>operation k\<close> is the outcome of
  the invocation made in attempt \<open>k\<close>.
\<close>

function retry_loop ::
  "retryOptions \<Rightarrow> (nat \<Rightarrow> ('v, 'e) outcome) \<Rightarrow> nat \<Rightarrow> 'e option
     \<Rightarrow> ('e retry_error + 'v) \<times> retry_event list" where
  "retry_loop ro operation attempt lastError =
     (if int attempt \<le> maxRetries ro
      then (case operation attempt of
              Success v \<Rightarrow> (Inr v, [Attempt attempt])
            | Failure error \<Rightarrow>
                if int attempt = maxRetries ro
                then (Inl (Thrown (Some error)), [Attempt attempt])
                else (let delay = initialDelay ro * Math_pow (backoffMultiplier ro) (int attempt);
                          (res, tr) = retry_loop ro operation (Suc attempt) (Some error)
                      in (res, Attempt attempt # Sleep delay # tr)))
      else (Inl (Thrown lastError), []))"
  by pat_completeness auto
termination
  by (relation "measure (\<lambda>(ro, operation, attempt, lastError). nat (maxRetries ro + 1 - int attempt))")
     auto

declare retry_loop.simps [simp del]

definition retryWithBackoff ::
  "retryOptions \<Rightarrow> (nat \<Rightarrow> ('v, 'e) outcome) \<Rightarrow> ('e retry_error + 'v) \<times> retry_event list" where
  "retryWithBackoff ro operation = retry_loop ro operation 0 None"

text \<open>The invocations and the delays of a run.\<close>

fun attempts :: "retry_event list \<Rightarrow> nat list" where
  "attempts [] = []"
| "attempts (Attempt k # es) = k # attempts es"
| "attempts (Sleep d # es) = attempts es"

fun delays :: "retry_event list \<Rightarrow> real list" where
  "delays [] = []"
| "delays (Attempt k # es) = delays es"
| "delays (Sleep d # es) = d # delays es"



section \<open>ResourcePool (layer-3-service-isolation/resource-pool.js)\<close>

text \<open>
  The function objects that \<open>waitForResource\<close> creates in the call numbered \<open>k\<close>:
  \<open>Resolve k\<close> is the \<open>resolve\<close> function of the promise it returns, \<open>Wrapper k\<close> the arrow
  function it pushes on \<open>pool.waiting\<close>. They are different objects, and
  \<open>Array.prototype.indexOf\<close> compares objects by identity.
\<close>

datatype fn = Resolve nat | Wrapper nat

record pool_metrics =
  totalRequests :: int
  successfulRequests :: int
  failedRequests :: int
  averageWaitTime :: real

record pool =
  name :: string
  pool_size :: int
  available :: int
  active :: int
  waiting :: "fn list"
  metrics :: pool_metrics

record ResourcePool =
  pools :: "string \<rightharpoonup> pool"
  defaultPoolSize :: int
  maxPoolSize :: int

record rp_options =
  opt_defaultPoolSize :: "int option"
  opt_maxPoolSize :: "int option"

definition new_ResourcePool :: "rp_options \<Rightarrow> ResourcePool" where
  "new_ResourcePool options =
     \<lparr> pools = Map.empty,
       defaultPoolSize = js_or (opt_defaultPoolSize options) 10,
       maxPoolSize = js_or (opt_maxPoolSize options) 50 \<rparr>"

datatype pool_error =
    PoolAlreadyExists string
  | PoolNotFound string
  | PoolTimeoutError string
  | OperationFailed

text \<open>\<open>createPool(name, size = this.defaultPoolSize)\<close>; \<open>None\<close> is an omitted \<open>size\<close>.\<close>

definition createPool ::
  "ResourcePool \<Rightarrow> string \<Rightarrow> int option \<Rightarrow> pool_error + pool \<times> ResourcePool" where
  "createPool rp nm sz =
     (if pools rp nm \<noteq> None then Inl (PoolAlreadyExists nm)
      else (let size = (case sz of None \<Rightarrow> defaultPoolSize rp | Some n \<Rightarrow> n);
                pool = \<lparr> name = nm, pool_size = size, available = size, active = 0,
                         waiting = [],
                         metrics = \<lparr> totalRequests = 0, successfulRequests = 0,
                                     failedRequests = 0, averageWaitTime = 0 \<rparr> \<rparr>
            in Inr (pool, rp\<lparr>pools := (pools rp)(nm \<mapsto> pool)\<rparr>)))"

text \<open>
  \<open>getPoolStats\<close>. \<open>None\<close> is \<open>null\<close>. The second component is the \<open>ResourcePool\<close> after the
  call. \<open>utilization\<close> is \<open>None\<close> where JavaScript's division by a \<open>size\<close> of zero gives
  \<open>NaN\<close> or an infinity.
\<close>

record pool_stats =
  st_name :: string
  st_size :: int
  st_available :: int
  st_active :: int
  st_waiting :: nat
  st_utilization :: "real option"
  st_metrics :: pool_metrics

definition getPoolStats :: "ResourcePool \<Rightarrow> string \<Rightarrow> pool_stats option \<times> ResourcePool" where
  "getPoolStats rp poolName =
     (case pools rp poolName of
        None \<Rightarrow> (None, rp)
      | Some pool \<Rightarrow>
          (Some \<lparr> st_name = name pool,
                  st_size = pool_size pool,
                  st_available = available pool,
                  st_active = active pool,
                  st_waiting = length (waiting pool),
                  st_utilization =
                    (if pool_size pool = 0 then None
                     else Some (real_of_int (active pool) / real_of_int (pool_size pool) * 100)),
                  st_metrics = metrics pool \<rparr>,
           rp))"

text \<open>\<open>Array.prototype.indexOf\<close>: the first index of \<open>x\<close>, or \<open>-1\<close>.\<close>

fun indexOf_from :: "int \<Rightarrow> 'a list \<Rightarrow> 'a \<Rightarrow> int" where
  "indexOf_from i [] x = - 1"
| "indexOf_from i (y # ys) x = (if y = x then i else indexOf_from (i + 1) ys x)"

definition indexOf :: "'a list \<Rightarrow> 'a \<Rightarrow> int" where
  "indexOf xs x = indexOf_from 0 xs x"

text \<open>\<open>xs.splice(index, 1)\<close> for \<open>0 \<le> index\<close>: the array without the element at \<open>index\<close>.\<close>

definition splice1 :: "'a list \<Rightarrow> int \<Rightarrow> 'a list" where
  "splice1 xs index = take (nat index) xs @ drop (Suc (nat index)) xs"

text \<open>
  The calls of \<open>acquireResource\<close>, numbered. A call is waiting on the promise of
  \<open>waitForResource\<close> (its timer is armed and its promise pending), or its operation is
  running, or it has settled. The string is the name of its pool, the number of a waiting
  call its \<open>startTime\<close>.
\<close>

datatype phase = Waiting string real | Running string | Settled "pool_error + unit"

type_synonym calls = "nat \<rightharpoonup> phase"

definition updateAverageWaitTime :: "pool \<Rightarrow> real \<Rightarrow> pool" where
  "updateAverageWaitTime pool waitTime =
     pool\<lparr>metrics := (metrics pool)
       \<lparr>averageWaitTime :=
          (averageWaitTime (metrics pool) * (real_of_int (totalRequests (metrics pool)) - 1)
             + waitTime)
          / real_of_int (totalRequests (metrics pool))\<rparr>\<rparr>"

text \<open>
  \<open>resolve()\<close> of the promise of call \<open>j\<close> at time \<open>t\<close>. If the promise is pending,
  \<open>acquireResource\<close> goes on after its \<open>await\<close>: it updates the average wait and starts the
  operation. If the promise has been rejected already, nothing happens.
\<close>

definition resolve_promise :: "pool \<times> calls \<Rightarrow> nat \<Rightarrow> real \<Rightarrow> pool \<times> calls" where
  "resolve_promise pc j t =
     (case pc of (pool, cs) \<Rightarrow>
        (case cs j of
           Some (Waiting nm startTime) \<Rightarrow>
             (updateAverageWaitTime pool (t - startTime), cs(j \<mapsto> Running nm))
         | _ \<Rightarrow> (pool, cs)))"

text \<open>
  Calling an element of \<open>pool.waiting\<close>. The arrow function of call \<open>j\<close> clears the timer of
  \<open>j\<close> (a waiting call has an armed timer, any other call has none), decrements
  \<open>available\<close>, increments \<open>active\<close> and resolves the promise.
\<close>

fun call_fn :: "pool \<times> calls \<Rightarrow> fn \<Rightarrow> real \<Rightarrow> pool \<times> calls" where
  "call_fn (pool, cs) (Wrapper j) t =
     resolve_promise (pool\<lparr>available := available pool - 1, active := active pool + 1\<rparr>, cs) j t"
| "call_fn (pool, cs) (Resolve j) t = resolve_promise (pool, cs) j t"

definition releaseResource :: "pool \<times> calls \<Rightarrow> real \<Rightarrow> pool \<times> calls" where
  "releaseResource pc t =
     (case pc of (pool, cs) \<Rightarrow>
        (let pool1 = pool\<lparr>active := active pool - 1\<rparr>
         in (case waiting pool1 of
               next # rest \<Rightarrow> call_fn (pool1\<lparr>waiting := rest\<rparr>, cs) next t
             | [] \<Rightarrow> (pool1\<lparr>available := available pool1 + 1\<rparr>, cs))))"

text \<open>
  The part of \<open>waitForResource\<close> that runs at once, in call \<open>k\<close>: \<open>True\<close> if the resource
  was granted, \<open>False\<close> if the call now waits.
\<close>

definition waitForResource :: "pool \<Rightarrow> nat \<Rightarrow> pool \<times> bool" where
  "waitForResource pool k =
     (if available pool > 0
      then (pool\<lparr>available := available pool - 1, active := active pool + 1\<rparr>, True)
      else (pool\<lparr>waiting := waiting pool @ [Wrapper k]\<rparr>, False))"

text \<open>The callback of \<open>setTimeout\<close> in \<open>waitForResource\<close>, call \<open>k\<close>, up to \<open>reject\<close>.\<close>

definition timeout_callback :: "pool \<Rightarrow> nat \<Rightarrow> pool" where
  "timeout_callback pool k =
     (let index = indexOf (waiting pool) (Resolve k)
      in if index > - 1 then pool\<lparr>waiting := splice1 (waiting pool) index\<rparr> else pool)"

definition bump_total :: "pool \<Rightarrow> pool" where
  "bump_total pool = pool\<lparr>metrics := (metrics pool)\<lparr>totalRequests := totalRequests (metrics pool) + 1\<rparr>\<rparr>"

definition bump_successful :: "pool \<Rightarrow> pool" where
  "bump_successful pool =
     pool\<lparr>metrics := (metrics pool)\<lparr>successfulRequests := successfulRequests (metrics pool) + 1\<rparr>\<rparr>"

definition bump_failed :: "pool \<Rightarrow> pool" where
  "bump_failed pool =
     pool\<lparr>metrics := (metrics pool)\<lparr>failedRequests := failedRequests (metrics pool) + 1\<rparr>\<rparr>"

text \<open>
  The \<open>ResourcePool\<close> with its calls in flight. A pool object is reached through
  \<open>this.pools\<close>; no method removes or replaces an entry, so the object a call holds is the
  entry under its name.
\<close>

record rp_sys =
  registry :: ResourcePool
  calls :: calls

definition put_pool :: "rp_sys \<Rightarrow> string \<Rightarrow> pool \<times> calls \<Rightarrow> rp_sys" where
  "put_pool s nm pc =
     (case pc of (pool, cs) \<Rightarrow> s\<lparr>registry := (registry s)\<lparr>pools := (pools (registry s))(nm \<mapsto> pool)\<rparr>, calls := cs\<rparr>)"

text \<open>
  The events of the pool, each one a task of the event loop running to completion:
  \<^item> \<open>Acquire k nm t0 t1\<close>: \<open>acquireResource(nm, operation, timeout)\<close> is called, as call
    number \<open>k\<close>; \<open>t0\<close> is \<open>Date.now()\<close> for \<open>startTime\<close>, \<open>t1\<close> is \<open>Date.now()\<close> after the
    \<open>await\<close> when the resource is granted at once.
  \<^item> \<open>Timeout k t\<close>: the timer of the waiting call \<open>k\<close> fires; \<open>acquireResource\<close> then runs
    its \<open>catch\<close> and \<open>finally\<close> blocks.
  \<^item> \<open>Finish k ok t\<close>: the operation of the running call \<open>k\<close> returns (\<open>ok\<close>) or throws;
    \<open>acquireResource\<close> counts it and runs its \<open>finally\<close> block.
  In the last two, \<open>t\<close> is \<open>Date.now()\<close> as read by a waiting call that \<open>releaseResource\<close>
  resumes. An event that cannot happen in the state gives \<open>None\<close>.
\<close>

datatype pool_event = Acquire nat string real real | Timeout nat real | Finish nat bool real

fun rp_step :: "rp_sys \<Rightarrow> pool_event \<Rightarrow> rp_sys option" where
  "rp_step s (Acquire k nm t0 t1) =
     (if calls s k \<noteq> None then None
      else (case pools (registry s) nm of
              None \<Rightarrow> Some (s\<lparr>calls := (calls s)(k \<mapsto> Settled (Inl (PoolNotFound nm)))\<rparr>)
            | Some pool \<Rightarrow>
                (case waitForResource (bump_total pool) k of
                   (pool1, True) \<Rightarrow>
                     Some (put_pool s nm
                       (updateAverageWaitTime pool1 (t1 - t0), (calls s)(k \<mapsto> Running nm)))
                 | (pool1, False) \<Rightarrow>
                     Some (put_pool s nm (pool1, (calls s)(k \<mapsto> Waiting nm t0))))))"
| "rp_step s (Timeout k t) =
     (case calls s k of
        Some (Waiting nm startTime) \<Rightarrow>
          (case pools (registry s) nm of
             None \<Rightarrow> None
           | Some pool \<Rightarrow>
               Some (put_pool s nm
                 (releaseResource
                    (bump_failed (timeout_callback pool k),
                     (calls s)(k \<mapsto> Settled (Inl (PoolTimeoutError nm)))) t)))
      | _ \<Rightarrow> None)"
| "rp_step s (Finish k ok t) =
     (case calls s k of
        Some (Running nm) \<Rightarrow>
          (case pools (registry s) nm of
             None \<Rightarrow> None
           | Some pool \<Rightarrow>
               Some (put_pool s nm
                 (releaseResource
                    (if ok then bump_successful pool else bump_failed pool,
                     (calls s)(k \<mapsto> Settled (if ok then Inr () else Inl OperationFailed))) t)))
      | _ \<Rightarrow> None)"

fun rp_run :: "rp_sys \<Rightarrow> pool_event list \<Rightarrow> rp_sys option" where
  "rp_run s [] = Some s"
| "rp_run s (e # es) = (case rp_step s e of None \<Rightarrow> None | Some s' \<Rightarrow> rp_run s' es)"

text \<open>A \<open>ResourcePool\<close> with the default options and one pool \<open>nm\<close> of the given size.\<close>

definition one_pool :: "string \<Rightarrow> int option \<Rightarrow> rp_sys option" where
  "one_pool nm sz =
     (case createPool (new_ResourcePool \<lparr>opt_defaultPoolSize = None, opt_maxPoolSize = None\<rparr>) nm sz of
        Inl err \<Rightarrow> None
      | Inr (pool, rp') \<Rightarrow> Some \<lparr> registry = rp', calls = Map.empty \<rparr>)"

text \<open>What \<open>getPoolStats\<close> shows of the pool \<open>nm\<close> after the events \<open>es\<close>.\<close>

definition stats_after :: "rp_sys option \<Rightarrow> pool_event list \<Rightarrow> string \<Rightarrow> pool_stats option" where
  "stats_after s0 es nm =
     (case s0 of
        None \<Rightarrow> None
      | Some s \<Rightarrow> (case rp_run s es of None \<Rightarrow> None | Some s' \<Rightarrow> fst (getPoolStats (registry s') nm)))"

definition phase_after :: "rp_sys option \<Rightarrow> pool_event list \<Rightarrow> nat \<Rightarrow> phase option" where
  "phase_after s0 es k =
     (case s0 of
        None \<Rightarrow> None
      | Some s \<Rightarrow> (case rp_run s es of None \<Rightarrow> None | Some s' \<Rightarrow> calls s' k))"



section \<open>Predicates and concrete scenarios\<close>

fun is_failure :: "('v, 'e) outcome \<Rightarrow> bool" where
  "is_failure (Failure e) = True"
| "is_failure (Success v) = False"

text \<open>A breaker with a positive threshold that satisfies the invariant.\<close>

definition cb_ok :: "CircuitBreaker \<Rightarrow> bool" where
  "cb_ok cb \<longleftrightarrow> 0 < failureThreshold cb \<and> cb_inv cb"

text \<open>
  An operation that throws; the breaker reads \<open>Date.now()\<close> as \<open>t\<close> and \<open>Math.random()\<close>
  as \<open>r\<close>. And one that returns.
\<close>

definition failing :: "real \<Rightarrow> real \<Rightarrow> (unit, string) settlement" where
  "failing t r = \<lparr> result = Failure ''HTTP 503'', t_last = t, t_next = t, rnd = r \<rparr>"

definition succeeding :: "(unit, string) settlement" where
  "succeeding = \<lparr> result = Success (), t_last = 0, t_next = 0, rnd = 0 \<rparr>"

text \<open>Breakers created at time \<open>0\<close> with a timeout of one second and thresholds 1 and 2.\<close>

definition breaker1 :: CircuitBreaker where
  "breaker1 = new_CircuitBreaker \<lparr>opt_failureThreshold = Some 1, opt_timeout = Some 1000\<rparr> 0"

definition breaker2 :: CircuitBreaker where
  "breaker2 = new_CircuitBreaker \<lparr>opt_failureThreshold = Some 2, opt_timeout = Some 1000\<rparr> 0"

text \<open>
  \<open>breaker1\<close> after one failure at time \<open>0\<close> and the admission of a call at time \<open>1000\<close>,
  which is still in flight.
\<close>

definition probing :: cb_sys where
  "probing =
     \<lparr> breaker = \<lparr> failureThreshold = 1, timeout = 1000, state = HALF_OPEN, failureCount = 1,
                   lastFailureTime = Some 0, nextAttempt = 1000 \<rparr>,
       inflight = 1, invocations = 2, rejections = 0 \<rparr>"

text \<open>A breaker that has failed twice beyond its threshold of 3.\<close>

definition tripped :: CircuitBreaker where
  "tripped = \<lparr> failureThreshold = 3, timeout = 1000, state = OPEN, failureCount = 5,
               lastFailureTime = Some 0, nextAttempt = 0 \<rparr>"

text \<open>The retry options of a client created without options, and an operation that always throws.\<close>

definition retry3 :: retryOptions where
  "retry3 = new_retryOptions
     \<lparr>opt_maxRetries = None, opt_backoffMultiplier = None, opt_initialDelay = None\<rparr>"

definition always_failing :: "nat \<Rightarrow> (unit, string) outcome" where
  "always_failing k = Failure ''HTTP 503''"

text \<open>
  What the specification asks of a run that is cancelled once attempt \<open>k\<close> has failed: it
  fails with \<open>CancelledError\<close>, having made the attempts \<open>0, \<dots>, k\<close> and only the \<open>k\<close>
  delays before them.
\<close>

definition aborted_after :: "nat \<Rightarrow> ('e retry_error + 'v) \<times> retry_event list \<Rightarrow> bool" where
  "aborted_after k run \<longleftrightarrow>
     fst run = Inl CancelledError \<and> attempts (snd run) = [0 ..< Suc k] \<and>
     length (delays (snd run)) = k"

text \<open>A \<open>ResourcePool\<close> created without options; the same with a pool \<open>read\<close> of size 20.\<close>

definition default_rp :: ResourcePool where
  "default_rp = new_ResourcePool \<lparr>opt_defaultPoolSize = None, opt_maxPoolSize = None\<rparr>"

definition created :: "pool_error + pool \<times> ResourcePool \<Rightarrow> pool option" where
  "created r = (case r of Inl err \<Rightarrow> None | Inr (pool, rp') \<Rightarrow> Some pool)"

definition db_rp :: ResourcePool where
  "db_rp = (case createPool default_rp ''read'' (Some 20) of
              Inl err \<Rightarrow> default_rp
            | Inr (pool, rp') \<Rightarrow> rp')"



text \<open>The counters that \<open>getPoolStats\<close> reports: \<open>available\<close>, \<open>active\<close> and \<open>waiting\<close>.\<close>

definition counters :: "pool_stats option \<Rightarrow> (int \<times> int \<times> nat) option" where
  "counters st = map_option (\<lambda>x. (st_available x, st_active x, st_waiting x)) st"

text \<open>All the definitions of the pool model, for evaluating a run of events.\<close>

lemmas pool_defs =
  stats_after_def phase_after_def one_pool_def counters_def createPool_def new_ResourcePool_def
  js_or_def Let_def getPoolStats_def put_pool_def waitForResource_def bump_total_def
  bump_failed_def bump_successful_def updateAverageWaitTime_def timeout_callback_def
  indexOf_def splice1_def releaseResource_def resolve_promise_def


section \<open>ResourcePool: registry and statistics\<close>

text \<open>
  C10. For every pool name that is not registered, \<open>getPoolStats\<close> returns \<open>null\<close>: it does
  not throw, it returns no statistics, and the \<open>ResourcePool\<close> is the same after the call.
\<close>

theorem getPoolStats_unregistered:
  "pools rp poolName = None \<Longrightarrow> getPoolStats rp poolName = (None, rp)"
  by (simp add: getPoolStats_def)

text \<open>With the pool \<open>read\<close> registered, the statistics of \<open>write\<close> are \<open>null\<close>.\<close>

theorem getPoolStats_unregistered_witness:
  "pools db_rp ''read'' \<noteq> None \<and> pools db_rp ''write'' = None \<and>
   getPoolStats db_rp ''write'' = (None, db_rp)"
proof -
  have reg: "pools db_rp ''read'' \<noteq> None"
    by (simp add: db_rp_def default_rp_def createPool_def new_ResourcePool_def Let_def)
  have unreg: "pools db_rp ''write'' = None"
    by (simp add: db_rp_def default_rp_def createPool_def new_ResourcePool_def Let_def)
  from reg unreg getPoolStats_unregistered [OF unreg] show ?thesis by simp
qed

text \<open>
  C9. The capacity of a pool defaults to 10 and is bounded by \<open>maxPoolSize\<close>, 50. The
  default holds. The bound does not: the constructor stores \<open>maxPoolSize\<close> and
  \<open>createPool\<close> never reads it, so a \<open>ResourcePool\<close> created without options makes a pool
  of size 100 when asked to.
\<close>

theorem createPool_ignores_maxPoolSize:
  "map_option pool_size (created (createPool default_rp ''big'' (Some 100))) = Some 100 \<and>
   maxPoolSize default_rp = 50 \<and>
   map_option pool_size (created (createPool default_rp ''dflt'' None)) = Some 10"
  by (simp add: created_def default_rp_def createPool_def new_ResourcePool_def js_or_def Let_def)


section \<open>CircuitBreaker: backoff delay\<close>

lemma Math_pow_nonneg: "0 \<le> k \<Longrightarrow> Math_pow b k = b ^ nat k"
  by (simp add: Math_pow_def)

text \<open>
  C6. For a breaker with \<open>failureCount \<ge> failureThreshold\<close> (and a positive timeout, and
  \<open>Math.random()\<close> in \<open>[0, 1)\<close>), \<open>getBackoffDelay\<close> returns
  \<open>timeout * 2 ^ min (failureCount - failureThreshold) 6 + jitter\<close> with
  \<open>0 \<le> jitter < 0.1 * exponentialDelay\<close>, and the exponential part is at most 64 times
  the timeout.
\<close>

theorem getBackoffDelay_bounds:
  assumes "failureThreshold cb \<le> failureCount cb" and "0 < timeout cb"
    and "0 \<le> r" and "r < 1"
  shows "let exponentialDelay =
               timeout cb * 2 ^ nat (min (failureCount cb - failureThreshold cb) 6);
             jitter = r * (1 / 10) * exponentialDelay
         in getBackoffDelay cb r = exponentialDelay + jitter \<and>
            0 \<le> jitter \<and> jitter < (1 / 10) * exponentialDelay \<and>
            exponentialDelay \<le> 64 * timeout cb"
proof -
  define k where "k = nat (min (failureCount cb - failureThreshold cb) 6)"
  define e where "e = timeout cb * 2 ^ k"
  have k6: "k \<le> 6" by (simp add: k_def)
  have "(2::real) ^ k \<le> 2 ^ 6" using k6 by (intro power_increasing) auto
  hence le64: "e \<le> 64 * timeout cb" using assms(2) by (simp add: e_def)
  have epos: "0 < e" using assms(2) by (simp add: e_def)
  have pw: "Math_pow 2 (min (failureCount cb - failureThreshold cb) 6) = 2 ^ k"
    using assms(1) by (simp add: Math_pow_nonneg k_def)
  have val: "getBackoffDelay cb r = e + r * (1 / 10) * e"
    by (simp add: getBackoffDelay_def Let_def pw e_def)
  have j0: "0 \<le> r * (1 / 10) * e" using assms(3) epos by simp
  have j1: "r * (1 / 10) * e < (1 / 10) * e" using assms(4) epos by simp
  show ?thesis
    unfolding Let_def k_def[symmetric] e_def[symmetric] using val j0 j1 le64 by simp
qed

text \<open>Two failures beyond the threshold, timeout 1000, \<open>Math.random() = 0.5\<close>: 4000 + 200.\<close>

theorem getBackoffDelay_bounds_witness:
  "failureThreshold tripped \<le> failureCount tripped \<and> 0 < timeout tripped \<and>
   getBackoffDelay tripped (1 / 2) = 4000 + 200"
  using getBackoffDelay_bounds [of tripped "1 / 2"]
  by (simp add: tripped_def Let_def)



section \<open>CircuitBreaker: the invariant\<close>

lemma cb_inv_onSuccess: "0 < failureThreshold cb \<Longrightarrow> cb_inv (onSuccess cb)"
  by (simp add: cb_inv_def onSuccess_def)

lemma cb_inv_onFailure: "cb_inv cb \<Longrightarrow> cb_inv (onFailure cb t1 t2 r)"
  by (simp add: cb_inv_def onFailure_def Let_def)

lemma threshold_onSuccess [simp]: "failureThreshold (onSuccess cb) = failureThreshold cb"
  by (simp add: onSuccess_def)

lemma threshold_onFailure [simp]: "failureThreshold (onFailure cb t1 t2 r) = failureThreshold cb"
  by (simp add: onFailure_def Let_def)

lemma execute_rejected:
  "state cb = OPEN \<Longrightarrow> now < nextAttempt cb \<Longrightarrow>
   execute cb now s = (Inl CircuitOpenError, cb, False)"
  by (simp add: execute_def execute_enter_def)

lemma execute_admitted:
  "\<not> (state cb = OPEN \<and> now < nextAttempt cb) \<Longrightarrow>
   execute cb now s =
     (fst (execute_settle (if state cb = OPEN then cb\<lparr>state := HALF_OPEN\<rparr> else cb) s),
      snd (execute_settle (if state cb = OPEN then cb\<lparr>state := HALF_OPEN\<rparr> else cb) s), True)"
  by (auto simp: execute_def execute_enter_def split: prod.splits)

lemma cb_ok_settle: "cb_ok cb \<Longrightarrow> cb_ok (snd (execute_settle cb s))"
  by (cases "result s")
     (simp_all add: execute_settle_def cb_ok_def cb_inv_onSuccess cb_inv_onFailure)

lemma cb_ok_half_open: "cb_ok cb \<Longrightarrow> cb_ok (cb\<lparr>state := HALF_OPEN\<rparr>)"
  by (simp add: cb_ok_def cb_inv_def)

lemma cb_ok_execute: "cb_ok cb \<Longrightarrow> cb_ok (fst (snd (execute cb now s)))"
proof (cases "state cb = OPEN \<and> now < nextAttempt cb")
  case True
  assume "cb_ok cb"
  with True show ?thesis by (simp add: execute_rejected)
next
  case False
  assume "cb_ok cb"
  with False show ?thesis
    by (simp add: execute_admitted cb_ok_settle cb_ok_half_open)
qed

lemma cb_ok_execute_all: "cb_ok cb \<Longrightarrow> cb_ok (fst (execute_all (cb, n) cs))"
proof (induction cs arbitrary: cb n)
  case Nil
  then show ?case by simp
next
  case (Cons c cs)
  obtain now s where c: "c = (now, s)" by (cases c)
  obtain res cb' invoked where ex: "execute cb now s = (res, cb', invoked)"
    by (cases "execute cb now s")
  from cb_ok_execute [OF Cons.prems, of now s] ex have "cb_ok cb'" by simp
  from Cons.IH [OF this] show ?case by (simp add: c ex)
qed

lemma cb_ok_step: "cb_ok (breaker s) \<Longrightarrow> cb_step s e = Some s' \<Longrightarrow> cb_ok (breaker s')"
proof (cases e)
  case (Call now)
  assume ok: "cb_ok (breaker s)" and st: "cb_step s e = Some s'"
  from st Call ok show ?thesis
    by (auto simp: execute_enter_def cb_ok_half_open split: if_splits)
next
  case Succeed
  assume ok: "cb_ok (breaker s)" and st: "cb_step s e = Some s'"
  from st Succeed ok show ?thesis
    by (auto simp: cb_ok_def cb_inv_onSuccess split: if_splits)
next
  case (Fail t1 t2 r)
  assume ok: "cb_ok (breaker s)" and st: "cb_step s e = Some s'"
  from st Fail ok show ?thesis
    by (auto simp: cb_ok_def cb_inv_onFailure split: if_splits)
qed

lemma cb_ok_run: "cb_ok (breaker s) \<Longrightarrow> cb_run s es = Some s' \<Longrightarrow> cb_ok (breaker s')"
proof (induction es arbitrary: s)
  case Nil
  then show ?case by simp
next
  case (Cons e es)
  then show ?case by (auto split: option.splits dest: cb_ok_step)
qed

lemma cb_ok_new:
  "0 < failureThreshold (new_CircuitBreaker options now) \<Longrightarrow>
   cb_ok (new_CircuitBreaker options now)"
  by (simp add: cb_ok_def cb_inv_def new_CircuitBreaker_def)

text \<open>
  C7. For a breaker constructed with a positive \<open>failureThreshold\<close>,
  \<open>state = CLOSED \<longrightarrow> failureCount < failureThreshold\<close> holds initially, in every state
  reached by a sequence of \<open>execute\<close> calls (one after the other, or overlapping), and
  is preserved by \<open>onSuccess\<close> and by \<open>onFailure\<close>.
\<close>

theorem cb_invariant:
  assumes "0 < failureThreshold (new_CircuitBreaker options now)"
  shows "cb_inv (new_CircuitBreaker options now) \<and>
         cb_inv (fst (execute_all (new_CircuitBreaker options now, 0) cs)) \<and>
         (\<forall>s. cb_run (cb_init (new_CircuitBreaker options now)) es = Some s
               \<longrightarrow> cb_inv (breaker s)) \<and>
         (\<forall>cb. 0 < failureThreshold cb \<and> cb_inv cb \<longrightarrow>
               cb_inv (onSuccess cb) \<and> (\<forall>t1 t2 r. cb_inv (onFailure cb t1 t2 r)))"
proof -
  have ok0: "cb_ok (new_CircuitBreaker options now)"
    using assms by (rule cb_ok_new)
  have a: "cb_inv (new_CircuitBreaker options now)"
    using ok0 by (simp add: cb_ok_def)
  have b: "cb_inv (fst (execute_all (new_CircuitBreaker options now, 0) cs))"
    using cb_ok_execute_all [OF ok0, of 0 cs] by (simp add: cb_ok_def)
  have c: "cb_inv (breaker s)"
    if "cb_run (cb_init (new_CircuitBreaker options now)) es = Some s" for s
    using cb_ok_run [of "cb_init (new_CircuitBreaker options now)" es s] ok0 that
    by (simp add: cb_init_def cb_ok_def)
  have d: "cb_inv (onSuccess cb) \<and> (\<forall>t1 t2 r. cb_inv (onFailure cb t1 t2 r))"
    if "0 < failureThreshold cb \<and> cb_inv cb" for cb
    using that by (simp add: cb_inv_onSuccess cb_inv_onFailure)
  from a b c d show ?thesis by blast
qed

text \<open>
  Threshold 2: a failure, a success, two failures (the breaker opens), a rejected call and,
  after the cooldown, a success: the breaker is closed again with the invariant.
\<close>

theorem cb_invariant_witness:
  "state (fst (execute_all (breaker2, 0)
      [(0, failing 0 0), (10, succeeding), (20, failing 20 0), (30, failing 30 (1 / 2)),
       (40, failing 40 0), (1100, succeeding)])) = CLOSED \<and>
   cb_inv (fst (execute_all (breaker2, 0)
      [(0, failing 0 0), (10, succeeding), (20, failing 20 0), (30, failing 30 (1 / 2)),
       (40, failing 40 0), (1100, succeeding)]))"
  using cb_invariant [of "\<lparr>opt_failureThreshold = Some 2, opt_timeout = Some 1000\<rparr>" 0
      "[(0, failing 0 0), (10, succeeding), (20, failing 20 0), (30, failing 30 (1 / 2)),
       (40, failing 40 0), (1100, succeeding)]" "[]"]
  by (simp add: breaker2_def new_CircuitBreaker_def js_or_def execute_def execute_enter_def
      execute_settle_def failing_def succeeding_def onFailure_def onSuccess_def Let_def
      getBackoffDelay_def Math_pow_def)



section \<open>CircuitBreaker: opening at the threshold\<close>

lemma execute_all_append:
  "execute_all (cb, n) (xs @ ys) = execute_all (execute_all (cb, n) xs) ys"
proof (induction xs arbitrary: cb n)
  case Nil
  then show ?case by simp
next
  case (Cons c xs)
  obtain now s where c: "c = (now, s)" by (cases c)
  obtain res cb' invoked where ex: "execute cb now s = (res, cb', invoked)"
    by (cases "execute cb now s")
  show ?case by (simp add: c ex Cons.IH)
qed

lemma execute_closed_failure:
  assumes "state cb = CLOSED" and "is_failure (result s)"
  shows "execute cb now s =
           (case result s of Failure e \<Rightarrow> Inl (OperationError e) | Success v \<Rightarrow> Inr v,
            onFailure cb (t_last s) (t_next s) (rnd s), True)"
proof (cases "result s")
  case (Success v)
  with assms(2) show ?thesis by simp
next
  case (Failure e)
  with assms(1) show ?thesis
    by (simp add: execute_def execute_enter_def execute_settle_def)
qed

lemma onFailure_below:
  "failureCount cb + 1 < failureThreshold cb \<Longrightarrow>
   onFailure cb t1 t2 r = cb\<lparr>failureCount := failureCount cb + 1, lastFailureTime := Some t1\<rparr>"
  by (simp add: onFailure_def Let_def)

lemma onFailure_reaching:
  "failureCount cb + 1 = failureThreshold cb \<Longrightarrow>
   onFailure cb t1 t2 r =
     cb\<lparr>failureCount := failureThreshold cb, lastFailureTime := Some t1, state := OPEN,
        nextAttempt := t2 + (timeout cb + r * (1 / 10) * timeout cb)\<rparr>"
  by (simp add: onFailure_def Let_def getBackoffDelay_def Math_pow_def)

lemma failures_below_threshold:
  assumes "state cb = CLOSED"
    and "\<forall>c \<in> set cs. is_failure (result (snd c))"
    and "failureCount cb + int (length cs) < failureThreshold cb"
  shows "\<exists>lt. execute_all (cb, n) cs =
           (cb\<lparr>failureCount := failureCount cb + int (length cs), lastFailureTime := lt\<rparr>,
            n + length cs)"
  using assms
proof (induction cs arbitrary: cb n)
  case Nil
  have "cb = cb\<lparr>failureCount := failureCount cb, lastFailureTime := lastFailureTime cb\<rparr>"
    by simp
  then show ?case by (metis add.right_neutral execute_all.simps(1) list.size(3) of_nat_0)
next
  case (Cons c cs)
  obtain now s where c: "c = (now, s)" by (cases c)
  let ?cb1 = "cb\<lparr>failureCount := failureCount cb + 1, lastFailureTime := Some (t_last s)\<rparr>"
  from Cons.prems c have f: "is_failure (result s)" by simp
  from Cons.prems have lt: "failureCount cb + 1 < failureThreshold cb" by simp
  have ex: "execute cb now s =
              (case result s of Failure e \<Rightarrow> Inl (OperationError e) | Success v \<Rightarrow> Inr v,
               ?cb1, True)"
    using execute_closed_failure [OF Cons.prems(1) f, of now] onFailure_below [OF lt] by simp
  have "\<exists>lt. execute_all (?cb1, Suc n) cs =
           (?cb1\<lparr>failureCount := failureCount ?cb1 + int (length cs), lastFailureTime := lt\<rparr>,
            Suc n + length cs)"
    using Cons.prems by (intro Cons.IH) auto
  then obtain lt' where
    "execute_all (?cb1, Suc n) cs =
       (?cb1\<lparr>failureCount := failureCount ?cb1 + int (length cs), lastFailureTime := lt'\<rparr>,
        Suc n + length cs)" ..
  then have "execute_all (cb, n) (c # cs) =
       (cb\<lparr>failureCount := failureCount cb + int (length (c # cs)), lastFailureTime := lt'\<rparr>,
        n + length (c # cs))"
    by (simp add: c ex add.assoc add.commute)
  then show ?case ..
qed

lemma open_at_threshold:
  assumes "0 < failureThreshold cb" and "state cb = CLOSED" and "failureCount cb = 0"
    and "int (length cs) = failureThreshold cb"
    and "\<forall>c \<in> set cs. is_failure (result (snd c))"
  shows "execute_all (cb, 0) cs =
           (cb\<lparr>failureCount := failureThreshold cb,
               lastFailureTime := Some (t_last (snd (last cs))), state := OPEN,
               nextAttempt := t_next (snd (last cs))
                 + (timeout cb + rnd (snd (last cs)) * (1 / 10) * timeout cb)\<rparr>,
            length cs)"
proof -
  from assms(1,4) have ne: "cs \<noteq> []" by auto
  define bs where "bs = butlast cs"
  obtain now s where l: "last cs = (now, s)" by (cases "last cs")
  from ne have cs: "cs = bs @ [(now, s)]" by (simp add: bs_def l [symmetric])
  have len: "int (length bs) = failureThreshold cb - 1" using assms(4) cs by simp
  have fb: "\<forall>c \<in> set bs. is_failure (result (snd c))" using assms(5) cs by auto
  have fs: "is_failure (result s)" using assms(5) cs by auto
  have "\<exists>lt. execute_all (cb, 0) bs =
           (cb\<lparr>failureCount := failureCount cb + int (length bs), lastFailureTime := lt\<rparr>,
            0 + length bs)"
    using assms(2) fb len assms(3) by (intro failures_below_threshold) auto
  then obtain lt where bs_run: "execute_all (cb, 0) bs =
           (cb\<lparr>failureCount := failureThreshold cb - 1, lastFailureTime := lt\<rparr>, length bs)"
    using len assms(3) by auto
  let ?cb1 = "cb\<lparr>failureCount := failureThreshold cb - 1, lastFailureTime := lt\<rparr>"
  have st1: "state ?cb1 = CLOSED" using assms(2) by simp
  have reach: "failureCount ?cb1 + 1 = failureThreshold ?cb1" by simp
  have ex: "execute ?cb1 now s =
      (case result s of Failure e \<Rightarrow> Inl (OperationError e) | Success v \<Rightarrow> Inr v,
       ?cb1\<lparr>failureCount := failureThreshold ?cb1, lastFailureTime := Some (t_last s),
            state := OPEN,
            nextAttempt := t_next s + (timeout ?cb1 + rnd s * (1 / 10) * timeout ?cb1)\<rparr>, True)"
    using execute_closed_failure [OF st1 fs, of now] onFailure_reaching [OF reach] by simp
  have "execute_all (cb, 0) cs =
           (cb\<lparr>failureCount := failureThreshold cb, lastFailureTime := Some (t_last s),
               state := OPEN,
               nextAttempt := t_next s + (timeout cb + rnd s * (1 / 10) * timeout cb)\<rparr>,
            length cs)"
    by (simp add: cs execute_all_append bs_run ex)
  then show ?thesis by (simp add: l)
qed



text \<open>
  C1, as amended. A breaker with positive \<open>failureThreshold\<close> \<open>T\<close> that is closed with
  \<open>failureCount = 0\<close> is open after exactly \<open>T\<close> consecutive \<open>execute\<close> calls whose
  operation fails; the operation has been invoked \<open>T\<close> times, and \<open>nextAttempt\<close> is the time
  of the last failure plus \<open>timeout * (1 + Math.random() / 10)\<close>. A further call made
  while \<open>Date.now() < nextAttempt\<close> fails with \<open>CircuitOpenError\<close> without invoking the
  operation: the count stays at \<open>T\<close> and the breaker is unchanged. A further call made
  at or after \<open>nextAttempt\<close> passes the gate with the state set to \<open>HALF_OPEN\<close> and
  invokes the operation: the count is \<open>T + 1\<close>, and the call returns what the operation
  returns or throws, after \<open>onSuccess\<close> or \<open>onFailure\<close>.
\<close>

theorem open_after_threshold_failures:
  assumes "0 < failureThreshold cb" and "state cb = CLOSED" and "failureCount cb = 0"
    and "int (length cs) = failureThreshold cb"
    and "\<forall>c \<in> set cs. is_failure (result (snd c))"
  shows "case execute_all (cb, 0) cs of (cb', n) \<Rightarrow>
           state cb' = OPEN \<and> n = length cs \<and> failureCount cb' = failureThreshold cb \<and>
           nextAttempt cb' =
             t_next (snd (last cs)) + getBackoffDelay cb' (rnd (snd (last cs))) \<and>
           nextAttempt cb' =
             t_next (snd (last cs)) + timeout cb * (1 + rnd (snd (last cs)) / 10) \<and>
           (\<forall>now s. now < nextAttempt cb' \<longrightarrow>
              execute cb' now s = (Inl CircuitOpenError, cb', False) \<and>
              execute_all (cb, 0) (cs @ [(now, s)]) = (cb', length cs)) \<and>
           (\<forall>now s. nextAttempt cb' \<le> now \<longrightarrow>
              (execute_enter cb' now :: unit cb_error + CircuitBreaker)
                = Inr (cb'\<lparr>state := HALF_OPEN\<rparr>) \<and>
              execute cb' now s =
                (fst (execute_settle (cb'\<lparr>state := HALF_OPEN\<rparr>) s),
                 snd (execute_settle (cb'\<lparr>state := HALF_OPEN\<rparr>) s), True) \<and>
              execute_all (cb, 0) (cs @ [(now, s)]) =
                (snd (execute_settle (cb'\<lparr>state := HALF_OPEN\<rparr>) s), Suc (length cs)))"
proof -
  let ?cb' = "cb\<lparr>failureCount := failureThreshold cb,
               lastFailureTime := Some (t_last (snd (last cs))), state := OPEN,
               nextAttempt := t_next (snd (last cs))
                 + (timeout cb + rnd (snd (last cs)) * (1 / 10) * timeout cb)\<rparr>"
  have run: "execute_all (cb, 0) cs = (?cb', length cs)"
    by (rule open_at_threshold [OF assms])
  have bd: "getBackoffDelay ?cb' r = timeout cb + r * (1 / 10) * timeout cb" for r
    by (simp add: getBackoffDelay_def Math_pow_def Let_def)
  have rej: "execute ?cb' now s = (Inl CircuitOpenError, ?cb', False)"
    if "now < nextAttempt ?cb'" for now and s :: "('a, 'b) settlement"
    using that by (intro execute_rejected) auto
  have stay: "execute_all (cb, 0) (cs @ [(now, s)]) = (?cb', length cs)"
    if "now < nextAttempt ?cb'" for now and s :: "('a, 'b) settlement"
    using rej [OF that, of s] by (simp add: execute_all_append run)
  have alg: "t_next (snd (last cs)) + (timeout cb + rnd (snd (last cs)) * (1 / 10) * timeout cb)
      = t_next (snd (last cs)) + timeout cb * (1 + rnd (snd (last cs)) / 10)"
    by (simp add: algebra_simps)
  have gate: "(execute_enter ?cb' now :: unit cb_error + CircuitBreaker)
      = Inr (?cb'\<lparr>state := HALF_OPEN\<rparr>)"
    if "nextAttempt ?cb' \<le> now" for now
    using that by (simp add: execute_enter_def)
  have adm: "execute ?cb' now s =
      (fst (execute_settle (?cb'\<lparr>state := HALF_OPEN\<rparr>) s),
       snd (execute_settle (?cb'\<lparr>state := HALF_OPEN\<rparr>) s), True)"
    if "nextAttempt ?cb' \<le> now" for now and s :: "('a, 'b) settlement"
  proof -
    from that have "\<not> (state ?cb' = OPEN \<and> now < nextAttempt ?cb')" by simp
    from execute_admitted [OF this, of s] show ?thesis by simp
  qed
  have more: "execute_all (cb, 0) (cs @ [(now, s)]) =
      (snd (execute_settle (?cb'\<lparr>state := HALF_OPEN\<rparr>) s), Suc (length cs))"
    if "nextAttempt ?cb' \<le> now" for now and s :: "('a, 'b) settlement"
    using adm [OF that, of s] by (simp add: execute_all_append run)
  have early: "\<forall>now (s :: ('a, 'b) settlement). now < nextAttempt ?cb' \<longrightarrow>
              execute ?cb' now s = (Inl CircuitOpenError, ?cb', False) \<and>
              execute_all (cb, 0) (cs @ [(now, s)]) = (?cb', length cs)"
    using rej stay by blast
  have late: "\<forall>now (s :: ('a, 'b) settlement). nextAttempt ?cb' \<le> now \<longrightarrow>
              (execute_enter ?cb' now :: unit cb_error + CircuitBreaker)
                = Inr (?cb'\<lparr>state := HALF_OPEN\<rparr>) \<and>
              execute ?cb' now s =
                (fst (execute_settle (?cb'\<lparr>state := HALF_OPEN\<rparr>) s),
                 snd (execute_settle (?cb'\<lparr>state := HALF_OPEN\<rparr>) s), True) \<and>
              execute_all (cb, 0) (cs @ [(now, s)]) =
                (snd (execute_settle (?cb'\<lparr>state := HALF_OPEN\<rparr>) s), Suc (length cs))"
    using gate adm more by blast
  have facts: "state ?cb' = OPEN \<and> failureCount ?cb' = failureThreshold cb \<and>
      nextAttempt ?cb' = t_next (snd (last cs)) + getBackoffDelay ?cb' (rnd (snd (last cs))) \<and>
      nextAttempt ?cb' = t_next (snd (last cs)) + timeout cb * (1 + rnd (snd (last cs)) / 10)"
    using alg bd by simp
  show ?thesis
    unfolding run prod.case
    using facts early late by blast
qed

text \<open>
  Threshold 2, timeout 1000: two failures, the second at time 6 with \<open>Math.random() = 0.5\<close>,
  open the breaker until 1056; a call at 1055 is rejected and the count stays at 2; a call
  at 1056 is admitted, its operation returns, and the breaker is closed with a count of 3.
\<close>

theorem open_after_threshold_failures_witness:
  "execute_all (breaker2, 0) [(0, failing 1 0), (5, failing 6 (1 / 2))] =
     (\<lparr>failureThreshold = 2, timeout = 1000, state = OPEN, failureCount = 2,
        lastFailureTime = Some 6, nextAttempt = 1056\<rparr>, 2) \<and>
   execute_all (breaker2, 0) [(0, failing 1 0), (5, failing 6 (1 / 2)), (1055, succeeding)] =
     (\<lparr>failureThreshold = 2, timeout = 1000, state = OPEN, failureCount = 2,
        lastFailureTime = Some 6, nextAttempt = 1056\<rparr>, 2) \<and>
   execute_all (breaker2, 0) [(0, failing 1 0), (5, failing 6 (1 / 2)), (1056, succeeding)] =
     (\<lparr>failureThreshold = 2, timeout = 1000, state = CLOSED, failureCount = 0,
        lastFailureTime = Some 6, nextAttempt = 1056\<rparr>, 3)"
  using open_after_threshold_failures [of breaker2 "[(0, failing 1 0), (5, failing 6 (1 / 2))]"]
  by (simp add: breaker2_def new_CircuitBreaker_def js_or_def execute_def execute_enter_def
      execute_settle_def failing_def succeeding_def onFailure_def onSuccess_def Let_def
      getBackoffDelay_def Math_pow_def)

text \<open>
  C1 as stated, without a condition on the time of the call after the \<open>T\<close> failures, fails.
  Threshold 1, timeout 1000: the failure at time 0 opens the breaker until 1000. The second
  call, at time 1000, is not rejected: its operation is invoked, its own error comes
  back, and the operation has been invoked twice.
\<close>

theorem late_call_is_admitted:
  "execute_all (breaker1, 0) [(0, failing 0 0)] =
     (\<lparr>failureThreshold = 1, timeout = 1000, state = OPEN, failureCount = 1,
        lastFailureTime = Some 0, nextAttempt = 1000\<rparr>, 1) \<and>
   execute \<lparr>failureThreshold = 1, timeout = 1000, state = OPEN, failureCount = 1,
        lastFailureTime = Some 0, nextAttempt = 1000\<rparr> 1000 (failing 1000 0) =
     (Inl (OperationError ''HTTP 503''),
      \<lparr>failureThreshold = 1, timeout = 1000, state = OPEN, failureCount = 2,
        lastFailureTime = Some 1000, nextAttempt = 3000\<rparr>, True) \<and>
   snd (execute_all (breaker1, 0) [(0, failing 0 0), (1000, failing 1000 0)]) = 2"
  by (simp add: breaker1_def new_CircuitBreaker_def js_or_def execute_def execute_enter_def
      execute_settle_def failing_def onFailure_def Let_def getBackoffDelay_def Math_pow_def)


section \<open>CircuitBreaker: calls during a half-open probe\<close>

lemma half_open_admits:
  "state (breaker s) = HALF_OPEN \<Longrightarrow>
   cb_step s (Call now) =
     Some (s\<lparr>inflight := Suc (inflight s), invocations := Suc (invocations s)\<rparr>)"
  by (simp add: execute_enter_def)

lemma half_open_admits_all:
  "state (breaker s) = HALF_OPEN \<Longrightarrow>
   cb_run s (map Call ts) =
     Some (s\<lparr>inflight := inflight s + length ts, invocations := invocations s + length ts\<rparr>)"
proof (induction ts arbitrary: s)
  case Nil
  then show ?case by simp
next
  case (Cons t ts)
  let ?s1 = "s\<lparr>inflight := Suc (inflight s), invocations := Suc (invocations s)\<rparr>"
  have st: "state (breaker ?s1) = HALF_OPEN" using Cons.prems by simp
  show ?case
    using half_open_admits [OF Cons.prems, of t] Cons.IH [OF st] by simp
qed

text \<open>
  C2, as amended. While the breaker is \<open>HALF_OPEN\<close> (a call has been admitted at
  \<open>now \<ge> nextAttempt\<close> and no operation has settled since), every further call of \<open>execute\<close>
  is admitted and invokes the operation, so any number of probes can be in flight. The gate
  rejects with \<open>CircuitOpenError\<close> exactly when the state is \<open>OPEN\<close> and
  \<open>now < nextAttempt\<close>.
\<close>

theorem half_open_admits_every_call:
  assumes "state (breaker s) = HALF_OPEN"
  shows "cb_run s (map Call ts) =
           Some (s\<lparr>inflight := inflight s + length ts,
                   invocations := invocations s + length ts\<rparr>) \<and>
         (\<forall>cb now. (execute_enter cb now = (Inl CircuitOpenError :: unit cb_error + CircuitBreaker))
             \<longleftrightarrow> (state cb = OPEN \<and> now < nextAttempt cb))"
  using half_open_admits_all [OF assms, of ts] by (auto simp: execute_enter_def)

text \<open>
  Threshold 1, timeout 1000: after a failure at 0 and the admission of a probe at 1000, three
  more calls are admitted: four operations in flight.
\<close>

theorem half_open_admits_every_call_witness:
  "cb_run (cb_init breaker1) [Call 0, Fail 0 0 0, Call 1000] = Some probing \<and>
   cb_run probing (map Call [1001, 1002, 1003]) =
     Some (probing\<lparr>inflight := 4, invocations := 5\<rparr>)"
  using half_open_admits_every_call [of probing "[1001, 1002, 1003]"]
  by (simp add: probing_def cb_init_def breaker1_def new_CircuitBreaker_def js_or_def
      execute_enter_def onFailure_def Let_def getBackoffDelay_def Math_pow_def)

text \<open>
  C2 as stated fails. Threshold 1, timeout 1000: a failure at 0 opens the breaker; a call at
  500 is rejected; a call at 1000 is admitted as a probe; while it is outstanding, a call at
  1001 is admitted too: two operations in flight, three invocations, one rejection.
\<close>

theorem second_probe_is_admitted:
  "cb_run (cb_init breaker1) [Call 0, Fail 0 0 0, Call 500, Call 1000, Call 1001] =
     Some \<lparr>breaker = \<lparr>failureThreshold = 1, timeout = 1000, state = HALF_OPEN, failureCount = 1,
              lastFailureTime = Some 0, nextAttempt = 1000\<rparr>,
           inflight = 2, invocations = 3, rejections = 1\<rparr>"
  by (simp add: cb_init_def breaker1_def new_CircuitBreaker_def js_or_def execute_enter_def
      onFailure_def Let_def getBackoffDelay_def Math_pow_def)



section \<open>retryWithBackoff\<close>

lemma retry_loop_fails:
  assumes "\<forall>k. a \<le> k \<and> k \<le> a + n \<longrightarrow> operation k = Failure (err k)"
    and "int a + int n = maxRetries ro"
  shows "fst (retry_loop ro operation a le) = Inl (Thrown (Some (err (a + n)))) \<and>
         attempts (snd (retry_loop ro operation a le)) = [a ..< a + n + 1] \<and>
         delays (snd (retry_loop ro operation a le)) =
           map (\<lambda>i. initialDelay ro * backoffMultiplier ro ^ i) [a ..< a + n] \<and>
         length (snd (retry_loop ro operation a le)) = 2 * n + 1 \<and>
         (\<forall>i \<le> n. snd (retry_loop ro operation a le) ! (2 * i) = Attempt (a + i)) \<and>
         (\<forall>i < n. snd (retry_loop ro operation a le) ! (2 * i + 1) =
                    Sleep (initialDelay ro * backoffMultiplier ro ^ (a + i)))"
  using assms
proof (induction n arbitrary: a le)
  case 0
  then have "operation a = Failure (err a)" and "int a = maxRetries ro" by auto
  then show ?case by (simp add: retry_loop.simps [of ro operation a le])
next
  case (Suc n)
  then have op: "operation a = Failure (err a)" and lt: "int a < maxRetries ro" by auto
  let ?r = "retry_loop ro operation (Suc a) (Some (err a))"
  have unfold: "retry_loop ro operation a le =
      (fst ?r, Attempt a # Sleep (initialDelay ro * backoffMultiplier ro ^ a) # snd ?r)"
    using op lt
    by (simp add: retry_loop.simps [of ro operation a le] Math_pow_def split: prod.splits)
  have ih: "fst ?r = Inl (Thrown (Some (err (Suc a + n)))) \<and>
         attempts (snd ?r) = [Suc a ..< Suc a + n + 1] \<and>
         delays (snd ?r) = map (\<lambda>i. initialDelay ro * backoffMultiplier ro ^ i) [Suc a ..< Suc a + n] \<and>
         length (snd ?r) = 2 * n + 1 \<and>
         (\<forall>i \<le> n. snd ?r ! (2 * i) = Attempt (Suc a + i)) \<and>
         (\<forall>i < n. snd ?r ! (2 * i + 1) = Sleep (initialDelay ro * backoffMultiplier ro ^ (Suc a + i)))"
    using Suc.prems by (intro Suc.IH) auto
  have u1: "[a ..< a + Suc n + 1] = a # [Suc a ..< Suc a + n + 1]"
    by (rule trans [OF upt_conv_Cons]) simp_all
  have u2: "[a ..< a + Suc n] = a # [Suc a ..< Suc a + n]"
    by (rule trans [OF upt_conv_Cons]) simp_all
  have att: "attempts (snd (retry_loop ro operation a le)) = [a ..< a + Suc n + 1]"
    unfolding u1 using ih by (simp add: unfold del: upt_Suc)
  have del: "delays (snd (retry_loop ro operation a le)) =
      map (\<lambda>i. initialDelay ro * backoffMultiplier ro ^ i) [a ..< a + Suc n]"
    unfolding u2 using ih by (simp add: unfold del: upt_Suc)
  have ev: "snd (retry_loop ro operation a le) ! (2 * i) = Attempt (a + i)" if "i \<le> Suc n" for i
  proof (cases i)
    case 0
    then show ?thesis by (simp add: unfold)
  next
    case (Suc j)
    with that ih show ?thesis by (simp add: unfold)
  qed
  have od: "snd (retry_loop ro operation a le) ! (2 * i + 1) =
      Sleep (initialDelay ro * backoffMultiplier ro ^ (a + i))" if "i < Suc n" for i
  proof (cases i)
    case 0
    then show ?thesis by (simp add: unfold)
  next
    case (Suc j)
    with that ih show ?thesis by (simp add: unfold)
  qed
  have res: "fst (retry_loop ro operation a le) = Inl (Thrown (Some (err (a + Suc n))))"
    using ih by (simp add: unfold)
  have len: "length (snd (retry_loop ro operation a le)) = 2 * Suc n + 1"
    using ih by (simp add: unfold)
  from res len att del ev od show ?case by blast
qed


lemma retry_loop_attempts_le:
  "length (attempts (snd (retry_loop ro operation a le))) \<le> nat (maxRetries ro + 1 - int a)"
proof (induction ro operation a le rule: retry_loop.induct)
  case (1 ro operation attempt lastError)
  show ?case
  proof (cases "int attempt \<le> maxRetries ro")
    case False
    then show ?thesis by (simp add: retry_loop.simps [of ro operation attempt lastError])
  next
    case True
    show ?thesis
    proof (cases "operation attempt")
      case (Success v)
      with True show ?thesis
        by (simp add: retry_loop.simps [of ro operation attempt lastError])
    next
      case (Failure e)
      show ?thesis
      proof (cases "int attempt = maxRetries ro")
        case True
        with Failure show ?thesis
          by (simp add: retry_loop.simps [of ro operation attempt lastError])
      next
        case False
        with True Failure "1.IH" [of e "initialDelay ro * Math_pow (backoffMultiplier ro) (int attempt)"]
        show ?thesis
          by (auto simp: retry_loop.simps [of ro operation attempt lastError] split: prod.splits)
      qed
    qed
  qed
qed

lemma retry_loop_not_cancelled: "fst (retry_loop ro operation a le) \<noteq> Inl CancelledError"
proof (induction ro operation a le rule: retry_loop.induct)
  case (1 ro operation attempt lastError)
  show ?case
  proof (cases "int attempt \<le> maxRetries ro")
    case False
    then show ?thesis by (simp add: retry_loop.simps [of ro operation attempt lastError])
  next
    case True
    show ?thesis
    proof (cases "operation attempt")
      case (Success v)
      with True show ?thesis
        by (simp add: retry_loop.simps [of ro operation attempt lastError])
    next
      case (Failure e)
      show ?thesis
      proof (cases "int attempt = maxRetries ro")
        case True
        with Failure show ?thesis
          by (simp add: retry_loop.simps [of ro operation attempt lastError])
      next
        case False
        with True Failure
          "1.IH" [of e "initialDelay ro * Math_pow (backoffMultiplier ro) (int attempt)"]
        show ?thesis
          by (auto simp: retry_loop.simps [of ro operation attempt lastError] split: prod.splits)
      qed
    qed
  qed
qed

text \<open>
  C5. For an operation that fails on every attempt (and \<open>maxRetries \<ge> 0\<close>),
  \<open>retryWithBackoff\<close> makes exactly \<open>maxRetries + 1\<close> attempts, sleeps
  \<open>initialDelay * backoffMultiplier ^ (i - 1)\<close> right before attempt \<open>i \<ge> 1\<close> and not
  before attempt 0, and then throws the error of the last attempt. Whatever the operation
  does, there are at most \<open>maxRetries + 1\<close> attempts.
\<close>

theorem retry_exhausts_all_attempts:
  assumes "0 \<le> maxRetries ro"
    and "\<forall>k \<le> nat (maxRetries ro). operation k = Failure (err k)"
  shows "fst (retryWithBackoff ro operation) = Inl (Thrown (Some (err (nat (maxRetries ro))))) \<and>
         attempts (snd (retryWithBackoff ro operation)) = [0 ..< nat (maxRetries ro) + 1] \<and>
         delays (snd (retryWithBackoff ro operation)) =
           map (\<lambda>i. initialDelay ro * backoffMultiplier ro ^ i) [0 ..< nat (maxRetries ro)] \<and>
         hd (snd (retryWithBackoff ro operation)) = Attempt 0 \<and>
         (\<forall>i. 1 \<le> i \<and> i \<le> nat (maxRetries ro) \<longrightarrow>
            snd (retryWithBackoff ro operation) ! (2 * i - 1) =
              Sleep (initialDelay ro * backoffMultiplier ro ^ (i - 1)) \<and>
            snd (retryWithBackoff ro operation) ! (2 * i) = Attempt i) \<and>
         (\<forall>operation' :: nat \<Rightarrow> ('a, 'b) outcome.
            length (attempts (snd (retryWithBackoff ro operation'))) \<le> nat (maxRetries ro) + 1)"
proof -
  define n where "n = nat (maxRetries ro)"
  let ?tr = "snd (retry_loop ro operation 0 None)"
  have fl: "\<forall>k. 0 \<le> k \<and> k \<le> 0 + n \<longrightarrow> operation k = Failure (err k)"
    using assms(2) by (simp add: n_def)
  have mr: "int 0 + int n = maxRetries ro" using assms(1) by (simp add: n_def)
  note main = retry_loop_fails [OF fl mr, of None]
  have res: "fst (retry_loop ro operation 0 None) = Inl (Thrown (Some (err n)))"
    using main by simp
  have att: "attempts ?tr = [0 ..< n + 1]" using main by simp
  have del: "delays ?tr = map (\<lambda>i. initialDelay ro * backoffMultiplier ro ^ i) [0 ..< n]"
    using main by simp
  have len: "length ?tr = 2 * n + 1" using main by simp
  have ev: "?tr ! (2 * i) = Attempt i" if "i \<le> n" for i using main that by simp
  have od: "?tr ! (2 * i + 1) = Sleep (initialDelay ro * backoffMultiplier ro ^ i)" if "i < n" for i
    using main that by simp
  have h: "hd ?tr = Attempt 0"
  proof -
    from len have "?tr \<noteq> []" by auto
    then have "hd ?tr = ?tr ! 0" by (simp add: hd_conv_nth)
    with ev [of 0] show ?thesis by simp
  qed
  have pos: "?tr ! (2 * i - 1) = Sleep (initialDelay ro * backoffMultiplier ro ^ (i - 1)) \<and>
             ?tr ! (2 * i) = Attempt i" if "1 \<le> i \<and> i \<le> n" for i
  proof -
    from that obtain j where j: "i = Suc j" by (cases i) auto
    with that have "j < n" by simp
    from od [OF this] ev [of i] that j show ?thesis by simp
  qed
  have bound: "length (attempts (snd (retry_loop ro operation' 0 None))) \<le> n + 1"
    for operation' :: "nat \<Rightarrow> ('a, 'b) outcome"
    using retry_loop_attempts_le [of ro operation' 0 None] assms(1) by (simp add: n_def)
  show ?thesis
    unfolding retryWithBackoff_def n_def [symmetric]
    using res att del h pos bound by blast
qed

text \<open>
  The default options (\<open>maxRetries = 3\<close>, \<open>initialDelay = 100\<close>, \<open>backoffMultiplier = 2\<close>):
  four attempts with the delays 100, 200 and 400 between them.
\<close>

theorem retry_exhausts_all_attempts_witness:
  "retryWithBackoff retry3 always_failing =
     (Inl (Thrown (Some ''HTTP 503'')),
      [Attempt 0, Sleep 100, Attempt 1, Sleep 200, Attempt 2, Sleep 400, Attempt 3]) \<and>
   delays (snd (retryWithBackoff retry3 always_failing)) = [100, 200, 400] \<and>
   attempts (snd (retryWithBackoff retry3 always_failing)) = [0, 1, 2, 3]"
proof -
  have run: "retryWithBackoff retry3 always_failing =
     (Inl (Thrown (Some ''HTTP 503'')),
      [Attempt 0, Sleep 100, Attempt 1, Sleep 200, Attempt 2, Sleep 400, Attempt 3])"
    by (simp add: retryWithBackoff_def retry3_def new_retryOptions_def js_or_def always_failing_def
        retry_loop.simps Math_pow_def)
  have h1: "0 \<le> maxRetries retry3" by (simp add: retry3_def new_retryOptions_def js_or_def)
  have h2: "\<forall>k \<le> nat (maxRetries retry3). always_failing k = Failure ''HTTP 503''"
    by (simp add: always_failing_def)
  from retry_exhausts_all_attempts [OF h1 h2] run show ?thesis
    by (simp add: retry3_def new_retryOptions_def js_or_def)
qed

text \<open>
  C8, as amended. \<open>retryWithBackoff\<close> takes the operation only and reads no cancellation
  or deadline signal: no run fails with \<open>CancelledError\<close> or stops as the specification
  asks of a cancelled run, and when the operation fails on every attempt all
  \<open>maxRetries + 1\<close> attempts and all \<open>maxRetries\<close> delays take place.
\<close>

theorem retry_is_never_cancelled:
  "fst (retryWithBackoff ro operation) \<noteq> Inl CancelledError \<and>
   \<not> aborted_after k (retryWithBackoff ro operation) \<and>
   (0 \<le> maxRetries ro \<and> (\<forall>i \<le> nat (maxRetries ro). is_failure (operation i)) \<longrightarrow>
      length (attempts (snd (retryWithBackoff ro operation))) = nat (maxRetries ro) + 1 \<and>
      length (delays (snd (retryWithBackoff ro operation))) = nat (maxRetries ro))"
proof -
  have nc: "fst (retryWithBackoff ro operation) \<noteq> Inl CancelledError"
    by (simp add: retryWithBackoff_def retry_loop_not_cancelled)
  then have na: "\<not> aborted_after k (retryWithBackoff ro operation)"
    by (simp add: aborted_after_def)
  have full: "length (attempts (snd (retryWithBackoff ro operation))) = nat (maxRetries ro) + 1 \<and>
      length (delays (snd (retryWithBackoff ro operation))) = nat (maxRetries ro)"
    if nonneg: "0 \<le> maxRetries ro"
      and fails: "\<forall>i \<le> nat (maxRetries ro). is_failure (operation i)"
  proof -
    define err where "err i = (case operation i of Failure e \<Rightarrow> e)" for i
    have fl: "\<forall>i. 0 \<le> i \<and> i \<le> 0 + nat (maxRetries ro) \<longrightarrow> operation i = Failure (err i)"
    proof (intro allI impI)
      fix i assume "0 \<le> i \<and> i \<le> 0 + nat (maxRetries ro)"
      with fails have "is_failure (operation i)" by simp
      then show "operation i = Failure (err i)"
        by (cases "operation i") (simp_all add: err_def)
    qed
    have mr: "int 0 + int (nat (maxRetries ro)) = maxRetries ro" using nonneg by simp
    from retry_loop_fails [OF fl mr, of None] show ?thesis
      by (simp add: retryWithBackoff_def)
  qed
  from nc na full show ?thesis by blast
qed

text \<open>With the default options and an operation that always throws: four attempts, three delays.\<close>

theorem retry_is_never_cancelled_witness:
  "maxRetries retry3 = 3 \<and> is_failure (always_failing 0) \<and> is_failure (always_failing 1) \<and>
   is_failure (always_failing 2) \<and> is_failure (always_failing 3) \<and>
   length (attempts (snd (retryWithBackoff retry3 always_failing))) = 4 \<and>
   length (delays (snd (retryWithBackoff retry3 always_failing))) = 3"
  using retry_is_never_cancelled [of retry3 always_failing 0]
  by (simp add: retry3_def new_retryOptions_def js_or_def always_failing_def)

text \<open>
  C8 as stated fails. With the default options and an operation that always throws, a
  cancellation raised during attempt 0 should end the run with \<open>CancelledError\<close> after that
  attempt; the run makes all four attempts and all three delays and throws the operation's
  error.
\<close>

theorem cancellation_is_not_observed:
  "retryWithBackoff retry3 always_failing =
     (Inl (Thrown (Some ''HTTP 503'')),
      [Attempt 0, Sleep 100, Attempt 1, Sleep 200, Attempt 2, Sleep 400, Attempt 3]) \<and>
   \<not> aborted_after 0 (retryWithBackoff retry3 always_failing)"
  by (simp add: retryWithBackoff_def retry3_def new_retryOptions_def js_or_def always_failing_def
      retry_loop.simps Math_pow_def aborted_after_def)



section \<open>ResourcePool: acquisition, timeout and release\<close>

text \<open>
  The timeout callback looks for \<open>resolve\<close> in \<open>pool.waiting\<close>, which holds the arrow
  functions: it never finds it and never removes a waiter.
\<close>

lemma indexOf_from_absent: "x \<notin> set xs \<Longrightarrow> indexOf_from i xs x = - 1"
  by (induction xs arbitrary: i) auto

lemma timeout_callback_removes_nothing:
  "Resolve k \<notin> set (waiting pool) \<Longrightarrow> timeout_callback pool k = pool"
  by (simp add: timeout_callback_def indexOf_def indexOf_from_absent)

text \<open>
  \<open>releaseResource\<close> with a waiter at the head of the queue: \<open>active\<close> is as before and
  \<open>available\<close> is one less. With an empty queue the slot goes back to \<open>available\<close>.
\<close>

lemma resolve_promise_counters:
  "available (fst (resolve_promise (pool, cs) j t)) = available pool \<and>
   active (fst (resolve_promise (pool, cs) j t)) = active pool \<and>
   waiting (fst (resolve_promise (pool, cs) j t)) = waiting pool"
  by (simp add: resolve_promise_def updateAverageWaitTime_def split: option.splits phase.splits)

lemma releaseResource_handoff:
  "waiting pool = Wrapper j # rest \<Longrightarrow>
   available (fst (releaseResource (pool, cs) t)) = available pool - 1 \<and>
   active (fst (releaseResource (pool, cs) t)) = active pool \<and>
   waiting (fst (releaseResource (pool, cs) t)) = rest"
  by (simp add: releaseResource_def Let_def resolve_promise_counters)

lemma releaseResource_idle:
  "waiting pool = [] \<Longrightarrow>
   available (fst (releaseResource (pool, cs) t)) = available pool + 1 \<and>
   active (fst (releaseResource (pool, cs) t)) = active pool - 1"
  by (simp add: releaseResource_def Let_def)

text \<open>
  C3. An acquire that times out fails with \<open>PoolTimeoutError\<close>, its waiter leaves the queue,
  and \<open>available\<close> and \<open>active\<close> are as if the call had never been made. The code does the
  first only. In a pool of size 1 whose resource is held by call 0:
  \<^item> without a second call the counters (\<open>available\<close>, \<open>active\<close>, \<open>waiting\<close>) are
    \<open>(0, 1, 0)\<close>; after call 1 has waited and timed out they are \<open>(-1, 1, 0)\<close>: the
    \<open>finally\<close> block releases a resource the call never had, and \<open>releaseResource\<close>
    hands it to the call's own stale waiter;
  \<^item> when calls 1 and 2 wait and call 2 times out, its waiter stays in the queue
    (\<open>waiting = 1\<close> with nothing waiting), and call 1 is started while call 0 still holds
    the only resource.
\<close>

theorem timed_out_acquire_leaks_slot:
  "phase_after (one_pool ''p'' (Some 1))
     [Acquire 0 ''p'' 0 0, Acquire 1 ''p'' 1 1, Timeout 1 51] 1
     = Some (Settled (Inl (PoolTimeoutError ''p''))) \<and>
   counters (stats_after (one_pool ''p'' (Some 1)) [Acquire 0 ''p'' 0 0] ''p'')
     = Some (0, 1, 0) \<and>
   counters (stats_after (one_pool ''p'' (Some 1))
     [Acquire 0 ''p'' 0 0, Acquire 1 ''p'' 1 1, Timeout 1 51] ''p'')
     = Some (- 1, 1, 0) \<and>
   counters (stats_after (one_pool ''p'' (Some 1))
     [Acquire 0 ''p'' 0 0, Acquire 1 ''p'' 1 1, Acquire 2 ''p'' 2 2, Timeout 2 52] ''p'')
     = Some (- 1, 1, 1) \<and>
   map (phase_after (one_pool ''p'' (Some 1))
     [Acquire 0 ''p'' 0 0, Acquire 1 ''p'' 1 1, Acquire 2 ''p'' 2 2, Timeout 2 52]) [0, 1, 2]
     = [Some (Running ''p''), Some (Running ''p''), Some (Settled (Inl (PoolTimeoutError ''p'')))]"
  by (simp add: pool_defs)

text \<open>
  C4. In every reachable state \<open>available \<ge> 0\<close>, \<open>0 \<le> active \<le> capacity\<close>, and at rest
  \<open>available + active = capacity\<close>. The code breaks the first and the last on every
  handoff: \<open>releaseResource\<close> does not increment \<open>available\<close> when it calls the next
  waiter, and the waiter decrements it. In a pool of size 1, call 0 holds the resource and
  call 1 waits; when call 0 finishes the counters are \<open>(-1, 1, 0)\<close>; when call 1 has
  finished too, nothing is in flight and the counters are \<open>(0, 0, 0)\<close>:
  \<open>available + active = 0\<close> in a pool of size 1.
\<close>

theorem handoff_breaks_capacity_invariant:
  "counters (stats_after (one_pool ''p'' (Some 1))
     [Acquire 0 ''p'' 0 0, Acquire 1 ''p'' 1 1, Finish 0 True 10] ''p'')
     = Some (- 1, 1, 0) \<and>
   map (phase_after (one_pool ''p'' (Some 1))
     [Acquire 0 ''p'' 0 0, Acquire 1 ''p'' 1 1, Finish 0 True 10]) [0, 1]
     = [Some (Settled (Inr ())), Some (Running ''p'')] \<and>
   counters (stats_after (one_pool ''p'' (Some 1))
     [Acquire 0 ''p'' 0 0, Acquire 1 ''p'' 1 1, Finish 0 True 10, Finish 1 True 20] ''p'')
     = Some (0, 0, 0) \<and>
   map (phase_after (one_pool ''p'' (Some 1))
     [Acquire 0 ''p'' 0 0, Acquire 1 ''p'' 1 1, Finish 0 True 10, Finish 1 True 20]) [0, 1]
     = [Some (Settled (Inr ())), Some (Settled (Inr ()))] \<and>
   map_option st_size (stats_after (one_pool ''p'' (Some 1))
     [Acquire 0 ''p'' 0 0, Acquire 1 ''p'' 1 1, Finish 0 True 10, Finish 1 True 20] ''p'')
     = Some 1"
  by (simp add: pool_defs)

end
